theory Spec2Isabelle
  imports Complex_Main "HOL-Library.Sublist" "HOL-Library.Log_Nat"
begin

section \<open>CloudVault: size codec, multipart decoder and quota-aware metadata store\<close>

text \<open>
  A shallow embedding of \<^verbatim>\<open>server.js\<close>. Every definition below names the source
  lines it is translated from.

  Conventions of the model.
  \<^item> A JavaScript string whose characters are all below 256 (header values and the
    \<^verbatim>\<open>'binary'\<close> decoding of a buffer are such strings) is a \<^typ>\<open>string\<close>; a
    \<^verbatim>\<open>Buffer\<close> is a list of bytes, also written as \<^typ>\<open>string\<close>, one \<^typ>\<open>char\<close> per
    byte.
  \<^item> A JavaScript number is the exact rational it denotes, or \<open>NaN\<close>. The rounding of
    IEEE doubles is not modelled: sums and products are exact. \<open>Infinity\<close> is outside
    the model.
\<close>

subsection \<open>JavaScript numbers\<close>

datatype num = NaN | Fin rat

fun num_add :: "num \<Rightarrow> num \<Rightarrow> num" where
  "num_add (Fin a) (Fin b) = Fin (a + b)"
| "num_add _ _ = NaN"

fun num_mul :: "num \<Rightarrow> num \<Rightarrow> num" where
  "num_mul (Fin a) (Fin b) = Fin (a * b)"
| "num_mul _ _ = NaN"

text \<open>The comparison \<^verbatim>\<open>a > b\<close>: false as soon as one side is \<open>NaN\<close>.\<close>

fun num_gt :: "num \<Rightarrow> num \<Rightarrow> bool" where
  "num_gt (Fin a) (Fin b) = (b < a)"
| "num_gt _ _ = False"

subsection \<open>String and buffer primitives\<close>

text \<open>
  \<^verbatim>\<open>String.prototype.indexOf\<close>: the first offset at which the pattern occurs,
  \<open>None\<close> for the source's \<open>-1\<close>.
\<close>

fun indexOf :: "'a list \<Rightarrow> 'a list \<Rightarrow> nat option" where
  "indexOf [] pat = (if pat = [] then Some 0 else None)"
| "indexOf (x # xs) pat =
     (if prefix pat (x # xs) then Some 0 else map_option Suc (indexOf xs pat))"

text \<open>
  \<^verbatim>\<open>Buffer.prototype.lastIndexOf\<close> with its default offset: the last offset at which
  the pattern occurs, \<open>None\<close> for \<open>-1\<close>.
\<close>

fun lastIndexOf :: "'a list \<Rightarrow> 'a list \<Rightarrow> nat option" where
  "lastIndexOf [] pat = (if pat = [] then Some 0 else None)"
| "lastIndexOf (x # xs) pat =
     (case lastIndexOf xs pat of
        Some i \<Rightarrow> Some (Suc i)
      | None \<Rightarrow> if prefix pat (x # xs) then Some 0 else None)"

text \<open>\<^verbatim>\<open>String.prototype.includes\<close>.\<close>

definition includes_str :: "string \<Rightarrow> string \<Rightarrow> bool" where
  "includes_str s pat = (indexOf s pat \<noteq> None)"

text \<open>
  \<^verbatim>\<open>String.prototype.split\<close> with a non-empty separator string: cut at the first
  occurrence, go on behind it. The result always has at least one element.
\<close>

function split_str :: "string \<Rightarrow> string \<Rightarrow> string list" where
  "split_str sep s =
     (case indexOf s sep of
        None \<Rightarrow> [s]
      | Some i \<Rightarrow>
          if sep = [] \<or> s = [] then [s]
          else take i s # split_str sep (drop (i + length sep) s))"
  by pat_completeness auto
termination
  by (relation "measure (\<lambda>(sep, s). length s)") auto

declare split_str.simps [simp del]

text \<open>Indexing an array: \<open>None\<close> is the source's \<^verbatim>\<open>undefined\<close>.\<close>

definition at_index :: "'a list \<Rightarrow> nat \<Rightarrow> 'a option" where
  "at_index xs i = (if i < length xs then Some (xs ! i) else None)"

text \<open>
  \<^verbatim>\<open>Buffer.from(str)\<close>: the UTF-8 encoding of a string whose characters are below
  256; a character from 128 on takes two bytes.
\<close>

definition utf8_char :: "char \<Rightarrow> string" where
  "utf8_char c =
     (let v = (of_char c :: nat)
      in if v < 128 then [c] else [char_of (192 + v div 64), char_of (128 + v mod 64)])"

definition Buffer_from :: "string \<Rightarrow> string" where
  "Buffer_from s = concat (map utf8_char s)"

subsection \<open>Decimal numerals\<close>

definition is_digit :: "char \<Rightarrow> bool" where
  "is_digit c = (let v = (of_char c :: nat) in 48 \<le> v \<and> v \<le> 57)"

definition digit_char :: "nat \<Rightarrow> char" where
  "digit_char d = char_of (48 + d)"

definition digit_val :: "char \<Rightarrow> nat" where
  "digit_val c = of_char c - 48"

fun digits :: "nat \<Rightarrow> string" where
  "digits n = (if n < 10 then [digit_char n] else digits (n div 10) @ [digit_char (n mod 10)])"

declare digits.simps [simp del]

definition nat_of_digits :: "string \<Rightarrow> nat" where
  "nat_of_digits ds = foldl (\<lambda>a c. 10 * a + digit_val c) 0 ds"

text \<open>
  JavaScript white space among the characters below 256: TAB, LF, VT, FF, CR, space
  and the no-break space.
\<close>

definition is_space :: "char \<Rightarrow> bool" where
  "is_space c = ((of_char c :: nat) \<in> {9, 10, 11, 12, 13, 32, 160})"

text \<open>
  \<^verbatim>\<open>parseFloat\<close>: skip leading white space, read an optional sign, the longest
  prefix \<open>digits [. digits] [e [sign] digits]\<close> with at least one mantissa digit, and
  ignore what follows; \<open>NaN\<close> when there is no such prefix. The literal
  \<^verbatim>\<open>Infinity\<close> is not modelled (it reads as \<open>NaN\<close> here).
\<close>

definition parse_sign :: "string \<Rightarrow> bool \<times> string" where
  "parse_sign s =
     (case s of
        [] \<Rightarrow> (False, [])
      | c # r \<Rightarrow> if c = CHR ''-'' then (True, r) else if c = CHR ''+'' then (False, r) else (False, s))"

definition parse_exponent :: "string \<Rightarrow> rat" where
  "parse_exponent s =
     (case s of
        [] \<Rightarrow> 1
      | c # r \<Rightarrow>
          if c = CHR ''e'' \<or> c = CHR ''E'' then
            (let (neg, r') = parse_sign r; ds = takeWhile is_digit r'
             in if ds = [] then 1
                else if neg then 1 / 10 ^ nat_of_digits ds else 10 ^ nat_of_digits ds)
          else 1)"

definition parseFloat :: "string \<Rightarrow> num" where
  "parseFloat s =
     (let (neg, s2) = parse_sign (dropWhile is_space s);
          ip = takeWhile is_digit s2;
          s3 = dropWhile is_digit s2;
          has_dot = (s3 \<noteq> [] \<and> hd s3 = CHR ''.'');
          fp = (if has_dot then takeWhile is_digit (tl s3) else []);
          s4 = (if has_dot then dropWhile is_digit (tl s3) else s3)
      in if ip = [] \<and> fp = [] then NaN
         else Fin ((if neg then - 1 else 1)
                   * (of_nat (nat_of_digits ip) + of_nat (nat_of_digits fp) / 10 ^ length fp)
                   * parse_exponent s4))"

text \<open>
  \<^verbatim>\<open>x.toFixed(2)\<close> for \<open>x \<ge> 0\<close>: the integer \<open>n\<close> with \<open>n / 100\<close> nearest to \<open>x\<close>, the
  larger one on a tie, written with exactly two fraction digits.
\<close>

definition toFixed2 :: "rat \<Rightarrow> string" where
  "toFixed2 x =
     (let n = nat \<lfloor>x * 100 + 1 / 2\<rfloor>
      in digits (n div 100) @ ''.'' @ [digit_char (n mod 100 div 10), digit_char (n mod 10)])"

text \<open>
  The conversion of a number to a string in \<^verbatim>\<open>number + ' '\<close>, for the values it meets
  here: non-negative multiples of \<open>1 / 100\<close> below \<open>10\<^sup>2\<^sup>1\<close>, written without trailing
  zeros and without a bare decimal point.
\<close>

definition Number_toString :: "num \<Rightarrow> string" where
  "Number_toString v =
     (case v of
        NaN \<Rightarrow> ''NaN''
      | Fin x \<Rightarrow>
          (let n = nat \<lfloor>x * 100\<rfloor>
           in digits (n div 100)
              @ (if n mod 100 = 0 then []
                 else if n mod 10 = 0 then ''.'' @ [digit_char (n mod 100 div 10)]
                 else ''.'' @ [digit_char (n mod 100 div 10), digit_char (n mod 10)])))"

subsection \<open>Size codec (server.js, lines 60 to 79)\<close>

text \<open>
  \<^verbatim>\<open>Math.floor(Math.log(bytes) / Math.log(k))\<close> for an integer \<open>bytes \<ge> 1\<close>, computed
  by repeated division; lemma \<open>floor_log_eq\<close> below relates it to the real logarithm.
\<close>

fun floor_log :: "nat \<Rightarrow> nat \<Rightarrow> nat" where
  "floor_log k n = (if k < 2 \<or> n < k then 0 else Suc (floor_log k (n div k)))"

declare floor_log.simps [simp del]

definition sizes :: "string list" where
  "sizes = [''Bytes'', ''KB'', ''MB'', ''GB'']"

text \<open>\<^verbatim>\<open>' ' + sizes[i]\<close>: an index past the array yields the text \<^verbatim>\<open>undefined\<close>.\<close>

definition sizes_label :: "nat \<Rightarrow> string" where
  "sizes_label i = (case at_index sizes i of Some l \<Rightarrow> l | None \<Rightarrow> ''undefined'')"

definition formatFileSize :: "nat \<Rightarrow> string" where
  "formatFileSize bytes =
     (if bytes = 0 then ''0 Bytes''
      else
        let k = 1024;
            i = floor_log k bytes
        in Number_toString (parseFloat (toFixed2 (of_nat bytes / of_nat (k ^ i))))
           @ '' '' @ sizes_label i)"

definition parseFileSize :: "string \<Rightarrow> num" where
  "parseFileSize sizeStr =
     (let unit = at_index (split_str '' '' sizeStr) 1;
          val = parseFloat (hd (split_str '' '' sizeStr))
      in if unit = Some ''Bytes'' then val
         else if unit = Some ''KB'' then num_mul val (Fin 1024)
         else if unit = Some ''MB'' then num_mul (num_mul val (Fin 1024)) (Fin 1024)
         else if unit = Some ''GB'' then num_mul (num_mul (num_mul val (Fin 1024)) (Fin 1024)) (Fin 1024)
         else Fin 0)"

text \<open>
  The number of hundredths that \<^verbatim>\<open>toFixed(2)\<close> keeps of \<open>bytes / 1024\<^sup>i\<close>, in
  integer arithmetic (lemma \<open>formatFileSize_pos\<close> shows that this is what
  \<open>formatFileSize\<close> prints).
\<close>

definition hundredths :: "nat \<Rightarrow> nat" where
  "hundredths n = (200 * n + 1024 ^ floor_log 1024 n) div (2 * 1024 ^ floor_log 1024 n)"

subsection \<open>Environment, file system and metadata file\<close>

text \<open>
  A record of the metadata file (the objects of \<^verbatim>\<open>data.files\<close>): fields \<^verbatim>\<open>id\<close>,
  \<^verbatim>\<open>name\<close>, \<^verbatim>\<open>type\<close>, \<^verbatim>\<open>size\<close>, \<^verbatim>\<open>date\<close>, \<^verbatim>\<open>path\<close>, prefixed here with \<open>f_\<close>.
\<close>

record FileRecord =
  f_id :: int
  f_name :: string
  f_type :: string
  f_size :: string
  f_date :: string
  f_path :: string

record snapshot =
  files :: "FileRecord list"

text \<open>
  What an operation takes from outside the program: the value of
  \<^verbatim>\<open>generateUniqueId()\<close>, of \<^verbatim>\<open>Date.now()\<close> and of \<^verbatim>\<open>new Date().toISOString()\<close>,
  the library function \<^verbatim>\<open>path.join\<close>, and whether the write of the blob (with the
  message of its error when it fails), the removal of a blob and the write of the
  metadata file succeed.
\<close>

record env =
  uid :: string
  now :: int
  iso_now :: string
  path_join :: "string \<Rightarrow> string \<Rightarrow> string"
  write_ok :: bool
  write_error :: string
  unlink_ok :: bool
  save_ok :: bool

text \<open>
  The state outside the process: the parsed content of \<^verbatim>\<open>cloudvault-data.json\<close>
  (\<open>None\<close> when the file cannot be read or parsed), the blobs on disk by relative
  path, and the number of calls of \<^verbatim>\<open>saveData\<close> so far. A file that parses is taken
  to hold an object with an array \<^verbatim>\<open>files\<close> of records of the six typed fields above,
  as \<^verbatim>\<open>saveData\<close> writes it; then none of the \<^verbatim>\<open>try\<close> blocks of the routes catches
  anything. A write of the metadata file that fails leaves the file as it was.
\<close>

record state =
  data_file :: "snapshot option"
  blobs :: "string \<rightharpoonup> string"
  saves :: nat

text \<open>The object handed to the callback of \<^verbatim>\<open>parseMultipart\<close> (lines 167 to 171).\<close>

record upload_file =
  originalname :: string
  up_path :: string
  up_size :: nat

text \<open>
  Errors, each with its message: a JavaScript \<^verbatim>\<open>Error\<close> made by the decoder, or the
  error that \<^verbatim>\<open>fs.writeFile\<close> reports.
\<close>

datatype error = Error string | WriteError string

fun message :: "error \<Rightarrow> string" where
  "message (Error msg) = msg"
| "message (WriteError msg) = msg"

text \<open>The argument of \<^verbatim>\<open>sendJSON\<close>: a status code and a body.\<close>

datatype body = ErrorBody string | MessageBody string | UploadedBody string FileRecord

datatype response = Json nat body

record request =
  content_type :: "string option"
  body_bytes :: string

subsection \<open>Multipart decoder (server.js, lines 102 to 177)\<close>

definition CRLF :: string where
  "CRLF = [CHR 0x0D, CHR 0x0A]"

definition CRLFCRLF :: string where
  "CRLFCRLF = CRLF @ CRLF"

definition dquote :: char where
  "dquote = CHR 0x22"

definition filename_token :: string where
  "filename_token = ''filename='' @ [dquote]"

text \<open>
  The regular expression \<^verbatim>\<open>/filename="([^"]+)"/\<close> tried at the start of a string: the
  token, at least one character other than a double quote, and a double quote. The
  captured group is the run of characters up to that quote.
\<close>

definition match_here :: "string \<Rightarrow> string option" where
  "match_here s =
     (if prefix filename_token s then
        (let r = drop (length filename_token) s;
             name = takeWhile (\<lambda>c. c \<noteq> dquote) r
         in if name \<noteq> [] \<and> dropWhile (\<lambda>c. c \<noteq> dquote) r \<noteq> [] then Some name else None)
      else None)"

text \<open>\<^verbatim>\<open>bufferStr.match(...)\<close>: the leftmost match, \<open>None\<close> for \<^verbatim>\<open>null\<close>.\<close>

fun filename_match :: "string \<Rightarrow> string option" where
  "filename_match [] = None"
| "filename_match (c # cs) =
     (case match_here (c # cs) of
        Some name \<Rightarrow> Some name
      | None \<Rightarrow> filename_match cs)"

text \<open>
  \<^verbatim>\<open>buffer.slice(start, end)\<close> for offsets that are not negative: empty when
  \<open>end \<le> start\<close>.
\<close>

definition slice :: "'a list \<Rightarrow> nat \<Rightarrow> nat \<Rightarrow> 'a list" where
  "slice buffer start end' = take (end' - start) (drop start buffer)"

text \<open>Lines 104 to 111: the checks on the \<^verbatim>\<open>Content-Type\<close> header.\<close>

definition boundary_of :: "string option \<Rightarrow> error + string" where
  "boundary_of header =
     (let contentType = (case header of Some c \<Rightarrow> c | None \<Rightarrow> [])
      in if \<not> includes_str contentType ''multipart/form-data'' then Inl (Error ''Not multipart data'')
         else
           case at_index (split_str ''boundary='' contentType) 1 of
             None \<Rightarrow> Inl (Error ''No boundary found'')
           | Some boundary \<Rightarrow>
               if boundary = [] then Inl (Error ''No boundary found'') else Inr boundary)"

text \<open>
  Lines 145 to 148: the last occurrence of \<^verbatim>\<open>'--' + boundary\<close>, and when there is
  none, the last occurrence of \<^verbatim>\<open>'--' + boundary + '--'\<close>.
\<close>

definition fileEndIndex :: "string \<Rightarrow> string \<Rightarrow> nat option" where
  "fileEndIndex buffer boundary =
     (let boundaryBytes = Buffer_from (''--'' @ boundary);
          boundaryEndBytes = Buffer_from (''--'' @ boundary @ ''--'')
      in case lastIndexOf buffer boundaryBytes of
           Some i \<Rightarrow> Some i
         | None \<Rightarrow> lastIndexOf buffer boundaryEndBytes)"

text \<open>
  Lines 120 to 155, the handler of \<^verbatim>\<open>'end'\<close> up to the extraction of the file data.
  The \<^verbatim>\<open>'binary'\<close> decoding of the buffer has one character per byte, so
  \<open>bufferStr\<close> is the buffer itself. Past the check of line 150 the end offset is at
  least 5, so \<open>fileEndIndex - 2\<close> is not negative.
\<close>

definition extract_file :: "string \<Rightarrow> string \<Rightarrow> error + (string \<times> string)" where
  "extract_file boundary buffer =
     (let bufferStr = buffer;
          filename = (case filename_match bufferStr of Some name \<Rightarrow> name | None \<Rightarrow> [])
      in case indexOf bufferStr CRLFCRLF of
           None \<Rightarrow> Inl (Error ''Invalid multipart format'')
         | Some headerEnd \<Rightarrow>
             (let fileStartIndex = headerEnd + 4
              in case fileEndIndex buffer boundary of
                   None \<Rightarrow> Inl (Error ''Could not find file boundaries'')
                 | Some fileEnd \<Rightarrow>
                     if fileEnd \<le> fileStartIndex then Inl (Error ''Could not find file boundaries'')
                     else Inr (filename, slice buffer fileStartIndex (fileEnd - 2))))"

text \<open>
  \<^verbatim>\<open>parseMultipart\<close>: the result given to the callback and the state after it. A
  write that fails is taken to leave no blob.
\<close>

definition parseMultipart :: "env \<Rightarrow> request \<Rightarrow> state \<Rightarrow> (error + upload_file) \<times> state" where
  "parseMultipart e req st =
     (case boundary_of (content_type req) of
        Inl err \<Rightarrow> (Inl err, st)
      | Inr boundary \<Rightarrow>
          (case extract_file boundary (body_bytes req) of
             Inl err \<Rightarrow> (Inl err, st)
           | Inr (filename, fileData) \<Rightarrow>
               (let uniqueName = uid e @ ''-'' @ filename;
                    filePath = path_join e ''uploads'' uniqueName
                in if write_ok e
                   then (Inr \<lparr>originalname = filename, up_path = filePath, up_size = length fileData\<rparr>,
                         st\<lparr>blobs := (blobs st)(filePath \<mapsto> fileData)\<rparr>)
                   else (Inl (WriteError (write_error e)), st))))"

subsection \<open>Metadata store (server.js, lines 38 to 57 and 81 to 91)\<close>

definition loadData :: "state \<Rightarrow> snapshot" where
  "loadData st = (case data_file st of Some d \<Rightarrow> d | None \<Rightarrow> \<lparr>files = []\<rparr>)"

definition saveData :: "env \<Rightarrow> snapshot \<Rightarrow> state \<Rightarrow> bool \<times> state" where
  "saveData e d st =
     (if save_ok e then (True, st\<lparr>data_file := Some d, saves := Suc (saves st)\<rparr>)
      else (False, st\<lparr>saves := Suc (saves st)\<rparr>))"

definition getTotalStorageUsed :: "state \<Rightarrow> num" where
  "getTotalStorageUsed st =
     foldl (\<lambda>total file. num_add total (parseFileSize (f_size file))) (Fin 0) (files (loadData st))"

text \<open>
  Removal of a blob whose failure is ignored: \<^verbatim>\<open>fs.unlinkSync\<close> behind
  \<^verbatim>\<open>fs.existsSync\<close> in a \<^verbatim>\<open>try\<close> with an empty \<^verbatim>\<open>catch\<close> (lines 306 to 311), and
  \<^verbatim>\<open>fs.unlink\<close> whose error is only logged (lines 421 to 427).
\<close>

definition unlink :: "env \<Rightarrow> string \<Rightarrow> state \<Rightarrow> state" where
  "unlink e p st =
     (if p \<in> dom (blobs st) \<and> unlink_ok e then st\<lparr>blobs := (blobs st)(p := None)\<rparr> else st)"

subsection \<open>Upload route (server.js, lines 288 to 337)\<close>

definition totalBytes :: rat where
  "totalBytes = 25 * 1024 * 1024 * 1024"

text \<open>Line 319: \<^verbatim>\<open>file.originalname.split('.').pop() || 'unknown'\<close>.\<close>

definition file_type :: "string \<Rightarrow> string" where
  "file_type originalname' =
     (let ext = last (split_str ''.'' originalname')
      in if ext = [] then ''unknown'' else ext)"

text \<open>Lines 316 to 323.\<close>

definition newFile :: "env \<Rightarrow> upload_file \<Rightarrow> FileRecord" where
  "newFile e file =
     \<lparr>f_id = now e,
      f_name = originalname file,
      f_type = file_type (originalname file),
      f_size = formatFileSize (up_size file),
      f_date = hd (split_str ''T'' (iso_now e)),
      f_path = up_path file\<rparr>"

text \<open>
  The callback of lines 289 to 335. The test \<^verbatim>\<open>!file\<close> of line 296 never holds for
  the object that \<^verbatim>\<open>parseMultipart\<close> passes.
\<close>

definition upload :: "env \<Rightarrow> request \<Rightarrow> state \<Rightarrow> response \<times> state" where
  "upload e req st =
     (case parseMultipart e req st of
        (Inl err, st1) \<Rightarrow>
          (Json 500 (ErrorBody (''Upload failed: '' @ message err)), st1)
      | (Inr file, st1) \<Rightarrow>
          (let usedBytes = getTotalStorageUsed st1;
               fileSize = Fin (of_nat (up_size file))
           in if num_gt (num_add usedBytes fileSize) (Fin totalBytes)
              then (Json 400 (ErrorBody ''Storage limit exceeded (25GB)''), unlink e (up_path file) st1)
              else
                (let d = loadData st1;
                     d' = d\<lparr>files := files d @ [newFile e file]\<rparr>
                 in case saveData e d' st1 of
                      (True, st2) \<Rightarrow>
                        (Json 200 (UploadedBody ''File uploaded successfully'' (newFile e file)), st2)
                    | (False, st2) \<Rightarrow> (Json 500 (ErrorBody ''Failed to save file info''), st2))))"

text \<open>A sequence of upload requests, each with its own environment.\<close>

fun uploads :: "(env \<times> request) list \<Rightarrow> state \<Rightarrow> state" where
  "uploads [] st = st"
| "uploads ((e, req) # rest) st = uploads rest (snd (upload e req st))"

definition empty_store :: state where
  "empty_store = \<lparr>data_file = Some \<lparr>files = []\<rparr>, blobs = Map.empty, saves = 0\<rparr>"

subsection \<open>Delete route (server.js, lines 395 to 432)\<close>



subsection \<open>The quota invariant\<close>


subsection \<open>Concrete inputs\<close>

text \<open>Environments, requests and bodies at which the theorems below are evaluated.\<close>

definition demo_env :: env where
  "demo_env = \<lparr>uid = ''k3x9'', now = 1700000000000, iso_now = ''2023-11-14T22:13:20.000Z'',
     path_join = (\<lambda>a b. a @ ''/'' @ b), write_ok = True, write_error = [],
     unlink_ok = True, save_ok = True\<rparr>"

definition payload_name_body :: string where
  "payload_name_body =
     ''--X'' @ CRLF @ ''Content-Disposition: form-data; name='' @ [dquote] @ ''f'' @ [dquote]
     @ CRLFCRLF @ ''filename='' @ [dquote] @ ''evil.sh'' @ [dquote] @ CRLF @ ''--X--''"

definition header_name_body :: string where
  "header_name_body =
     ''--X'' @ CRLF @ ''Content-Disposition: form-data; filename='' @ [dquote] @ ''a.txt'' @ [dquote]
     @ CRLFCRLF @ ''filename='' @ [dquote] @ ''b.txt'' @ [dquote] @ CRLF @ ''--X--''"










definition readme_request :: request where
  "readme_request =
     \<lparr>content_type = Some ''multipart/form-data; boundary=X'',
      body_bytes = ''--X'' @ CRLF @ ''Content-Disposition: form-data; name='' @ [dquote] @ ''file''
        @ [dquote] @ ''; filename='' @ [dquote] @ ''README'' @ [dquote] @ CRLFCRLF @ ''hello'' @ CRLF
        @ ''--X--''\<rparr>"

section \<open>Properties of the size codec\<close>

subsection \<open>Decimal numerals and \<open>parseFloat\<close>\<close>

lemma digits_nonempty: "digits n \<noteq> []"
  by (subst digits.simps) simp

lemma of_char_digit_char: "d < 10 \<Longrightarrow> (of_char (digit_char d) :: nat) = 48 + d"
  by (simp add: digit_char_def)

lemma is_digit_digit_char: "d < 10 \<Longrightarrow> is_digit (digit_char d)"
  by (simp add: is_digit_def of_char_digit_char)

lemma digit_val_digit_char: "d < 10 \<Longrightarrow> digit_val (digit_char d) = d"
  by (simp add: digit_val_def of_char_digit_char)

lemma digits_all_digit: "list_all is_digit (digits n)"
proof (induction n rule: digits.induct)
  case (1 n)
  show ?case
  proof (cases "n < 10")
    case True
    then show ?thesis by (subst digits.simps) (simp add: is_digit_digit_char)
  next
    case False
    with 1 show ?thesis by (subst digits.simps) (simp add: is_digit_digit_char)
  qed
qed

lemma nat_of_digits_snoc: "nat_of_digits (ds @ [c]) = 10 * nat_of_digits ds + digit_val c"
  by (simp add: nat_of_digits_def)

lemma nat_of_digits_digits: "nat_of_digits (digits n) = n"
proof (induction n rule: digits.induct)
  case (1 n)
  show ?case
  proof (cases "n < 10")
    case True
    then show ?thesis
      by (subst digits.simps) (simp add: nat_of_digits_def digit_val_digit_char)
  next
    case False
    with 1 have "nat_of_digits (digits (n div 10)) = n div 10" by simp
    with False show ?thesis
      by (subst digits.simps) (simp add: nat_of_digits_snoc digit_val_digit_char)
  qed
qed

lemma hd_digits_digit: "is_digit (hd (digits n))"
  using digits_all_digit [of n] digits_nonempty [of n]
  by (cases "digits n") simp_all

lemma digit_not_space: "is_digit c \<Longrightarrow> \<not> is_space c"
  by (auto simp: is_digit_def is_space_def)

lemma digit_not_sign: "is_digit c \<Longrightarrow> c \<noteq> CHR ''-'' \<and> c \<noteq> CHR ''+'' \<and> c \<noteq> CHR ''.'' \<and> c \<noteq> CHR '' ''"
  by (auto simp: is_digit_def)

lemma not_digit_dot: "\<not> is_digit (CHR ''.'')"
  by (simp add: is_digit_def)


lemma dropWhile_space_digits: "dropWhile is_space (digits a @ r) = digits a @ r"
  using hd_digits_digit [of a] digits_nonempty [of a]
  by (cases "digits a") (simp_all add: digit_not_space)

lemma parse_sign_digits: "parse_sign (digits a @ r) = (False, digits a @ r)"
  using hd_digits_digit [of a] digits_nonempty [of a]
  by (cases "digits a") (auto simp: parse_sign_def dest: digit_not_sign)

lemma list_all_takeWhile: "list_all P xs \<Longrightarrow> takeWhile P xs = xs"
  by (induction xs) simp_all

lemma list_all_dropWhile: "list_all P xs \<Longrightarrow> dropWhile P xs = []"
  by (induction xs) simp_all

lemma takeWhile_digits_dot: "takeWhile is_digit (digits a @ CHR ''.'' # fs) = digits a"
  using digits_all_digit [of a]
  by (simp add: takeWhile_append2 list_all_iff not_digit_dot)

lemma dropWhile_digits_dot: "dropWhile is_digit (digits a @ CHR ''.'' # fs) = CHR ''.'' # fs"
  using digits_all_digit [of a]
  by (simp add: dropWhile_append2 list_all_iff not_digit_dot)

lemma nat_of_digits_Nil: "nat_of_digits [] = 0"
  by (simp add: nat_of_digits_def)

lemma parseFloat_digits: "parseFloat (digits a) = Fin (of_nat a)"
  using dropWhile_space_digits [of a "[]"] parse_sign_digits [of a "[]"]
  by (simp add: parseFloat_def Let_def list_all_takeWhile list_all_dropWhile digits_all_digit
      digits_nonempty nat_of_digits_digits parse_exponent_def nat_of_digits_Nil)

lemma parseFloat_digits_frac:
  assumes "list_all is_digit fs"
  shows "parseFloat (digits a @ CHR ''.'' # fs)
         = Fin (of_nat a + of_nat (nat_of_digits fs) / 10 ^ length fs)"
  using assms
  by (simp add: parseFloat_def Let_def dropWhile_space_digits parse_sign_digits
      takeWhile_digits_dot dropWhile_digits_dot list_all_takeWhile list_all_dropWhile
      digits_nonempty nat_of_digits_digits parse_exponent_def)

lemma two_digit_split: "10 * ((n::nat) mod 100 div 10) + n mod 10 = n mod 100"
proof -
  have "n mod 100 mod 10 = n mod 10" by (simp add: mod_mod_cancel)
  then show ?thesis using mult_div_mod_eq [of 10 "n mod 100"] by simp
qed

lemma hundredths_split:
  "rat_of_nat (n div 100) + rat_of_nat (n mod 100) / 100 = rat_of_nat n / 100"
proof -
  have "rat_of_nat n = rat_of_nat (100 * (n div 100) + n mod 100)" by simp
  also have "\<dots> = 100 * rat_of_nat (n div 100) + rat_of_nat (n mod 100)"
    by (simp only: of_nat_add of_nat_mult of_nat_numeral)
  finally show ?thesis by simp
qed

lemma nat_of_two_digits:
  "a < 10 \<Longrightarrow> b < 10 \<Longrightarrow> nat_of_digits [digit_char a, digit_char b] = 10 * a + b"
  by (simp add: nat_of_digits_def digit_val_digit_char)

lemma nat_of_one_digit: "a < 10 \<Longrightarrow> nat_of_digits [digit_char a] = a"
  by (simp add: nat_of_digits_def digit_val_digit_char)

lemma parseFloat_two_digits:
  "parseFloat (digits (n div 100) @ CHR ''.'' # [digit_char (n mod 100 div 10), digit_char (n mod 10)])
   = Fin (rat_of_nat n / 100)"
proof -
  have d: "n mod 100 div 10 < 10" "n mod 10 < 10" by simp_all
  have "parseFloat (digits (n div 100) @ CHR ''.'' # [digit_char (n mod 100 div 10), digit_char (n mod 10)])
        = Fin (rat_of_nat (n div 100) + rat_of_nat (10 * (n mod 100 div 10) + n mod 10) / 100)"
    using d by (simp add: parseFloat_digits_frac is_digit_digit_char nat_of_two_digits del: of_nat_add of_nat_mult)
  also have "\<dots> = Fin (rat_of_nat n / 100)"
    by (simp only: two_digit_split hundredths_split)
  finally show ?thesis .
qed

lemma parseFloat_one_digit:
  assumes "n mod 10 = 0"
  shows "parseFloat (digits (n div 100) @ CHR ''.'' # [digit_char (n mod 100 div 10)])
         = Fin (rat_of_nat n / 100)"
proof -
  have d: "n mod 100 div 10 < 10" by simp
  from assms two_digit_split [of n] have e: "n mod 100 = 10 * (n mod 100 div 10)" by simp
  have "parseFloat (digits (n div 100) @ CHR ''.'' # [digit_char (n mod 100 div 10)])
        = Fin (rat_of_nat (n div 100) + rat_of_nat (n mod 100 div 10) / 10)"
    using d by (simp add: parseFloat_digits_frac is_digit_digit_char nat_of_one_digit)
  also have "rat_of_nat (n mod 100 div 10) / 10 = rat_of_nat (n mod 100) / 100"
    by (subst (2) e) simp
  also have "Fin (rat_of_nat (n div 100) + rat_of_nat (n mod 100) / 100) = Fin (rat_of_nat n / 100)"
    by (simp only: hundredths_split)
  finally show ?thesis .
qed

lemma parseFloat_toFixed2:
  "parseFloat (toFixed2 x) = Fin (of_nat (nat \<lfloor>x * 100 + 1 / 2\<rfloor>) / 100)"
  by (simp only: toFixed2_def Let_def append_Cons append_Nil parseFloat_two_digits)

lemma Number_toString_hundredths:
  "Number_toString (Fin (rat_of_nat m / 100)) =
     digits (m div 100)
     @ (if m mod 100 = 0 then []
        else if m mod 10 = 0 then CHR ''.'' # [digit_char (m mod 100 div 10)]
        else CHR ''.'' # [digit_char (m mod 100 div 10), digit_char (m mod 10)])"
  by (simp add: Number_toString_def Let_def)

lemma parseFloat_Number_toString:
  "parseFloat (Number_toString (Fin (of_nat m / 100))) = Fin (of_nat m / 100)"
proof -
  consider (int) "m mod 100 = 0" | (one) "m mod 100 \<noteq> 0" "m mod 10 = 0"
    | (two) "m mod 100 \<noteq> 0" "m mod 10 \<noteq> 0"
    by blast
  then show ?thesis
  proof cases
    case int
    with hundredths_split [of m] show ?thesis
      by (simp add: Number_toString_hundredths parseFloat_digits)
  next
    case one
    then show ?thesis
      by (simp add: Number_toString_hundredths parseFloat_one_digit)
  next
    case two
    then show ?thesis
      by (simp add: Number_toString_hundredths parseFloat_two_digits)
  qed
qed

lemma indexOf_single_absent: "c \<notin> set s \<Longrightarrow> indexOf s [c] = None"
  by (induction s) auto

lemma indexOf_single_first: "c \<notin> set s \<Longrightarrow> indexOf (s @ c # r) [c] = Some (length s)"
  by (induction s) auto

lemma split_str_single_absent: "c \<notin> set s \<Longrightarrow> split_str [c] s = [s]"
  by (subst split_str.simps) (simp add: indexOf_single_absent)

lemma split_str_two:
  assumes "c \<notin> set a" "c \<notin> set b"
  shows "split_str [c] (a @ c # b) = [a, b]"
  using assms
  by (subst split_str.simps) (simp add: indexOf_single_first split_str_single_absent)


lemma digits_no_space: "CHR '' '' \<notin> set (digits n)"
  using digits_all_digit [of n] by (auto simp: list_all_iff dest: digit_not_sign)

lemma digit_char_not_space:
  "d < 10 \<Longrightarrow> digit_char d \<noteq> CHR '' ''" "d < 10 \<Longrightarrow> CHR '' '' \<noteq> digit_char d"
  using is_digit_digit_char [of d] digit_not_sign [of "digit_char d"] by auto


lemma Number_toString_no_space: "CHR '' '' \<notin> set (Number_toString (Fin (rat_of_nat m / 100)))"
proof -
  have "m mod 100 div 10 < 10" "m mod 10 < 10" by simp_all
  then show ?thesis
    by (simp add: Number_toString_hundredths digits_no_space digit_char_not_space)
qed


lemma sizes_label_no_space: "CHR '' '' \<notin> set (sizes_label i)"
  by (cases "i < 4") (auto simp: sizes_label_def at_index_def sizes_def nth_Cons' )

lemma floor_log_bounds: "0 < n \<Longrightarrow> 2 \<le> k \<Longrightarrow> k ^ floor_log k n \<le> n \<and> n < k ^ Suc (floor_log k n)"
proof (induction k n rule: floor_log.induct)
  case (1 k n)
  show ?case
  proof (cases "n < k")
    case True
    with 1 show ?thesis by (subst (1 2) floor_log.simps) simp
  next
    case False
    with 1 have pos: "0 < n div k" by (simp add: div_greater_zero_iff)
    with 1 False have IH: "k ^ floor_log k (n div k) \<le> n div k"
      "n div k < k ^ Suc (floor_log k (n div k))" by simp_all
    have fl: "floor_log k n = Suc (floor_log k (n div k))"
      using False 1(3) by (subst floor_log.simps) simp
    have "k * k ^ floor_log k (n div k) \<le> k * (n div k)" using IH(1) by simp
    also have "\<dots> \<le> n" by simp
    finally have lo: "k ^ floor_log k n \<le> n" by (simp add: fl)
    have "n div k < k ^ Suc (floor_log k (n div k))" by (rule IH(2))
    then have "n < k ^ Suc (floor_log k (n div k)) * k"
      using 1(3) by (simp add: div_less_iff_less_mult)
    then have hi: "n < k ^ Suc (floor_log k n)" by (simp add: fl mult.commute)
    from lo hi show ?thesis by simp
  qed
qed

lemma floor_log_eq:
  assumes "0 < n"
  shows "int (floor_log 1024 n) = \<lfloor>log 1024 (real n)\<rfloor>"
proof -
  from floor_log_bounds [OF assms, of 1024]
  have "1024 ^ floor_log 1024 n \<le> n" "n < 1024 ^ (floor_log 1024 n + 1)" by simp_all
  then show ?thesis
    using floor_log_nat_eq_if [of 1024 "floor_log 1024 n" n] by simp
qed

lemma round_half_up_nat:
  assumes "0 < d"
  shows "nat \<lfloor>rat_of_nat n / rat_of_nat d * 100 + 1 / 2\<rfloor> = (200 * n + d) div (2 * d)"
proof -
  have "rat_of_nat n / rat_of_nat d * 100 + 1 / 2 = rat_of_nat (200 * n + d) / rat_of_nat (2 * d)"
    using assms by (simp add: field_simps)
  then have "\<lfloor>rat_of_nat n / rat_of_nat d * 100 + 1 / 2\<rfloor> = int ((200 * n + d) div (2 * d))"
    by (simp only: floor_divide_of_nat_eq)
  then show ?thesis by simp
qed

lemma formatFileSize_pos:
  assumes "0 < n"
  shows "formatFileSize n
         = Number_toString (Fin (rat_of_nat (hundredths n) / 100))
           @ CHR '' '' # sizes_label (floor_log 1024 n)"
proof -
  have "(0::nat) < 1024 ^ floor_log 1024 n" by simp
  from round_half_up_nat [OF this, of n]
  have "parseFloat (toFixed2 (rat_of_nat n / rat_of_nat (1024 ^ floor_log 1024 n)))
        = Fin (rat_of_nat (hundredths n) / 100)"
    by (simp only: parseFloat_toFixed2 hundredths_def)
  with assms show ?thesis
    by (simp add: formatFileSize_def Let_def)
qed


lemma parseFileSize_parts:
  assumes "CHR '' '' \<notin> set a" "CHR '' '' \<notin> set l"
  shows "parseFileSize (a @ CHR '' '' # l) =
     (if l = ''Bytes'' then parseFloat a
      else if l = ''KB'' then num_mul (parseFloat a) (Fin 1024)
      else if l = ''MB'' then num_mul (num_mul (parseFloat a) (Fin 1024)) (Fin 1024)
      else if l = ''GB'' then num_mul (num_mul (num_mul (parseFloat a) (Fin 1024)) (Fin 1024)) (Fin 1024)
      else Fin 0)"
  using split_str_two [OF assms]
  by (simp add: parseFileSize_def at_index_def)

lemma sizes_label_cases:
  "sizes_label 0 = ''Bytes''" "sizes_label (Suc 0) = ''KB''" "sizes_label 2 = ''MB''"
  "sizes_label 3 = ''GB''" "4 \<le> i \<Longrightarrow> sizes_label i = ''undefined''"
  by (simp_all add: sizes_label_def at_index_def sizes_def eval_nat_numeral)

lemma parseFileSize_formatFileSize:
  assumes "0 < n"
  shows "parseFileSize (formatFileSize n) =
     (if floor_log 1024 n < 4
      then Fin (rat_of_nat (hundredths n) / 100 * 1024 ^ floor_log 1024 n) else Fin 0)"
proof -
  let ?i = "floor_log 1024 n"
  let ?a = "Number_toString (Fin (rat_of_nat (hundredths n) / 100))"
  have p: "parseFileSize (formatFileSize n) = parseFileSize (?a @ CHR '' '' # sizes_label ?i)"
    by (simp only: formatFileSize_pos [OF assms])
  consider "?i = 0" | "?i = Suc 0" | "?i = 2" | "?i = 3" | "4 \<le> ?i" by linarith
  then show ?thesis
  proof cases
    case 1
    then show ?thesis
      by (simp add: p parseFileSize_parts Number_toString_no_space sizes_label_no_space
          sizes_label_cases parseFloat_Number_toString)
  next
    case 2
    then show ?thesis
      by (simp add: p parseFileSize_parts Number_toString_no_space sizes_label_no_space
          sizes_label_cases parseFloat_Number_toString)
  next
    case 3
    then show ?thesis
      by (simp add: p parseFileSize_parts Number_toString_no_space sizes_label_no_space
          sizes_label_cases parseFloat_Number_toString)
  next
    case 4
    then show ?thesis
      by (simp add: p parseFileSize_parts Number_toString_no_space sizes_label_no_space
          sizes_label_cases parseFloat_Number_toString)
  next
    case 5
    then show ?thesis
      by (simp add: p parseFileSize_parts Number_toString_no_space sizes_label_no_space
          sizes_label_cases parseFloat_Number_toString)
  qed
qed

lemma half_up_bounds:
  assumes "0 < (d::nat)"
  shows "2 * d * ((200 * n + d) div (2 * d)) \<le> 200 * n + d"
    and "200 * n + d < 2 * d * ((200 * n + d) div (2 * d)) + 2 * d"
proof -
  show "2 * d * ((200 * n + d) div (2 * d)) \<le> 200 * n + d"
    by simp
  from assms have "0 < 2 * d" by simp
  from dividend_less_times_div [OF this, of "200 * n + d"]
  show "200 * n + d < 2 * d * ((200 * n + d) div (2 * d)) + 2 * d"
    by simp
qed

lemma hundredths_error:
  "\<bar>rat_of_nat (hundredths n) / 100 * 1024 ^ floor_log 1024 n - rat_of_nat n\<bar>
   \<le> 1 / 200 * 1024 ^ floor_log 1024 n"
proof -
  define d :: nat where "d = 1024 ^ floor_log 1024 n"
  define m where "m = hundredths n"
  have dpos: "0 < d" by (simp add: d_def)
  have m: "m = (200 * n + d) div (2 * d)" by (simp add: m_def hundredths_def d_def)
  from half_up_bounds [OF dpos, of n]
  have "2 * d * m \<le> 200 * n + d" "200 * n + d < 2 * d * m + 2 * d"
    by (simp_all only: m)
  then have "rat_of_nat (2 * d * m) \<le> rat_of_nat (200 * n + d)"
    "rat_of_nat (200 * n + d) < rat_of_nat (2 * d * m + 2 * d)"
    by (simp_all only: of_nat_le_iff of_nat_less_iff)
  then have a: "2 * rat_of_nat d * rat_of_nat m \<le> 200 * rat_of_nat n + rat_of_nat d"
    and b: "200 * rat_of_nat n + rat_of_nat d < 2 * rat_of_nat d * rat_of_nat m + 2 * rat_of_nat d"
    by simp_all
  have "rat_of_nat m / 100 * rat_of_nat d - rat_of_nat n \<le> 1 / 200 * rat_of_nat d"
    "- (rat_of_nat m / 100 * rat_of_nat d - rat_of_nat n) \<le> 1 / 200 * rat_of_nat d"
    using a b by (simp_all add: field_simps)
  then have "\<bar>rat_of_nat m / 100 * rat_of_nat d - rat_of_nat n\<bar> \<le> 1 / 200 * rat_of_nat d"
    by (simp only: abs_le_iff)
  then show ?thesis
    by (simp add: m_def d_def)
qed

lemma floor_log_less_4: "n < 1024 ^ 4 \<Longrightarrow> floor_log 1024 n < 4"
proof (cases "0 < n")
  case True
  assume "n < 1024 ^ 4"
  moreover from floor_log_bounds [OF True, of 1024] have "1024 ^ floor_log 1024 n \<le> n"
    by simp
  ultimately have "(1024::nat) ^ floor_log 1024 n < 1024 ^ 4"
    by (rule le_less_trans [rotated])
  then show ?thesis
    by (rule power_less_imp_less_exp [rotated]) simp
next
  case False
  then show ?thesis by (simp add: floor_log.simps)
qed

lemma eval_floor_log_tib: "floor_log 1024 1099511627776 = 4"
  by (simp add: floor_log.simps)

lemma eval_hundredths_tib: "hundredths 1099511627776 = 100"
  by (simp add: hundredths_def eval_floor_log_tib)

lemma digit_chars:
  "digit_char 0 = CHR ''0''" "digit_char (Suc 0) = CHR ''1''" "digit_char 2 = CHR ''2''"
  "digit_char 3 = CHR ''3''" "digit_char 4 = CHR ''4''" "digit_char 5 = CHR ''5''"
  "digit_char 6 = CHR ''6''" "digit_char 7 = CHR ''7''" "digit_char 8 = CHR ''8''"
  "digit_char 9 = CHR ''9''"
  by code_simp+

lemma formatFileSize_tib: "formatFileSize 1099511627776 = ''1 undefined''"
proof -
  have "(0::nat) < 1099511627776" by simp
  from formatFileSize_pos [OF this] show ?thesis
    by (simp only: eval_hundredths_tib eval_floor_log_tib Number_toString_hundredths)
      (simp add: digits.simps digit_chars sizes_label_cases)
qed

subsection \<open>Round trip of the size codec\<close>

text \<open>
  Claim C2, as stated, asks for the bound at every non-negative \<open>n\<close>. At
  \<open>n = 1024\<^sup>4 = 1099511627776\<close> the unit index is 4, past the four labels:
  \<open>formatFileSize\<close> prints \<^verbatim>\<open>1 undefined\<close>, \<open>parseFileSize\<close> falls to its default 0, and
  the distance to \<open>n\<close> is \<open>n\<close> itself, far above a hundredth of the largest unit.
\<close>

theorem parse_format_roundtrip_counterexample:
  "formatFileSize 1099511627776 = ''1 undefined''
   \<and> parseFileSize (formatFileSize 1099511627776) = Fin 0
   \<and> \<not> \<bar>0 - rat_of_nat 1099511627776\<bar> \<le> 1 / 100 * 1024 ^ 3"
proof -
  have "(0::nat) < 1099511627776" by simp
  from parseFileSize_formatFileSize [OF this]
  have "parseFileSize (formatFileSize 1099511627776) = Fin 0"
    by (simp only: eval_floor_log_tib) simp
  then show ?thesis
    by (simp add: formatFileSize_tib)
qed

text \<open>
  Claim C2, amended: for every byte count \<open>n\<close> below \<open>1024\<^sup>4\<close> (where the selected unit
  is one of Bytes, KB, MB, GB), \<open>parseFileSize (formatFileSize n)\<close> is a number that
  differs from \<open>n\<close> by at most 0.01 times the byte factor \<open>1024\<^sup>i\<close> of the selected
  unit \<open>i\<close>, and the round trip is exact at \<open>n = 0\<close>.
\<close>

theorem parse_format_roundtrip:
  assumes "n < 1024 ^ 4"
  shows "(\<exists>v. parseFileSize (formatFileSize n) = Fin v
              \<and> \<bar>v - rat_of_nat n\<bar> \<le> 1 / 100 * 1024 ^ floor_log 1024 n)
         \<and> sizes_label (floor_log 1024 n) \<in> set sizes
         \<and> parseFileSize (formatFileSize 0) = Fin 0"
proof -
  have zero: "parseFileSize (formatFileSize 0) = Fin 0"
  proof -
    have "parseFileSize (digits 0 @ CHR '' '' # ''Bytes'') = parseFloat (digits 0)"
      by (subst parseFileSize_parts) (simp_all add: digits_no_space)
    moreover have "digits 0 = ''0''" by (simp add: digits.simps digit_chars)
    ultimately show ?thesis
      using parseFloat_digits [of 0] by (simp add: formatFileSize_def)
  qed
  have less: "floor_log 1024 n < 4" using assms by (rule floor_log_less_4)
  then have "floor_log 1024 n < length sizes" by (simp add: sizes_def)
  then have label: "sizes_label (floor_log 1024 n) \<in> set sizes"
    by (simp add: sizes_label_def at_index_def)
  have "\<exists>v. parseFileSize (formatFileSize n) = Fin v
              \<and> \<bar>v - rat_of_nat n\<bar> \<le> 1 / 100 * 1024 ^ floor_log 1024 n"
  proof (cases "n = 0")
    case True
    with zero show ?thesis by simp
  next
    case False
    then have "0 < n" by simp
    from parseFileSize_formatFileSize [OF this] less
    have "parseFileSize (formatFileSize n)
          = Fin (rat_of_nat (hundredths n) / 100 * 1024 ^ floor_log 1024 n)"
      by simp
    moreover have "\<bar>rat_of_nat (hundredths n) / 100 * 1024 ^ floor_log 1024 n - rat_of_nat n\<bar>
                   \<le> 1 / 100 * 1024 ^ floor_log 1024 n"
    proof -
      have "(1 / 200 :: rat) * 1024 ^ floor_log 1024 n \<le> 1 / 100 * 1024 ^ floor_log 1024 n"
        by simp
      with hundredths_error [of n] show ?thesis by (rule order_trans)
    qed
    ultimately show ?thesis by blast
  qed
  with label zero show ?thesis by blast
qed

text \<open>The amended claim at 1030 bytes.\<close>

theorem parse_format_roundtrip_witness:
  "(1030::nat) < 1024 ^ 4
   \<and> (\<exists>v. parseFileSize (formatFileSize 1030) = Fin v
              \<and> \<bar>v - rat_of_nat 1030\<bar> \<le> 1 / 100 * 1024 ^ floor_log 1024 1030)"
  using parse_format_roundtrip [of 1030] by simp



subsection \<open>Unit selection of \<open>formatFileSize\<close>\<close>





section \<open>Properties of the multipart decoder\<close>

subsection \<open>Searching in strings and buffers\<close>

lemma prefix_append_shorter:
  "prefix pat (s @ t) \<Longrightarrow> length pat \<le> length s \<Longrightarrow> prefix pat s"
  by (metis prefix_append prefix_length_le prefix_order.antisym prefix_order.refl
      prefix_length_prefix Sublist.prefix_def append_prefixD prefixI)



lemma lastIndexOf_None_iff:
  "lastIndexOf s pat = None \<longleftrightarrow> (\<forall>j \<le> length s. \<not> prefix pat (drop j s))"
proof (induction s)
  case Nil
  then show ?case by auto
next
  case (Cons x xs)
  show ?case
  proof
    assume "lastIndexOf (x # xs) pat = None"
    then have np: "\<not> prefix pat (x # xs)" and "lastIndexOf xs pat = None"
      by (auto split: if_splits option.splits)
    with Cons.IH have all: "\<forall>j \<le> length xs. \<not> prefix pat (drop j xs)" by simp
    show "\<forall>j \<le> length (x # xs). \<not> prefix pat (drop j (x # xs))"
    proof (intro allI impI)
      fix j assume "j \<le> length (x # xs)"
      then show "\<not> prefix pat (drop j (x # xs))"
        using np all by (cases j) auto
    qed
  next
    assume a: "\<forall>j \<le> length (x # xs). \<not> prefix pat (drop j (x # xs))"
    then have "\<not> prefix pat (drop 0 (x # xs))" by blast
    then have np: "\<not> prefix pat (x # xs)" by simp
    have "\<forall>j \<le> length xs. \<not> prefix pat (drop j xs)"
    proof (intro allI impI)
      fix j assume "j \<le> length xs"
      with a have "\<not> prefix pat (drop (Suc j) (x # xs))" by (metis Suc_le_mono length_Cons)
      then show "\<not> prefix pat (drop j xs)" by simp
    qed
    with Cons.IH np show "lastIndexOf (x # xs) pat = None" by simp
  qed
qed


lemma Buffer_from_append: "Buffer_from (a @ b) = Buffer_from a @ Buffer_from b"
  by (simp add: Buffer_from_def)








lemma filename_token_length: "length filename_token = 10"
  by (simp add: filename_token_def)

lemma match_here_Some_iff:
  "match_here s = Some n \<longleftrightarrow>
     prefix filename_token s \<and> n = takeWhile (\<lambda>c. c \<noteq> dquote) (drop 10 s) \<and> n \<noteq> []
     \<and> dquote \<in> set (drop 10 s)"
proof -
  have "dropWhile (\<lambda>c. c \<noteq> dquote) (drop 10 s) \<noteq> [] \<longleftrightarrow> dquote \<in> set (drop 10 s)"
    by (simp add: dropWhile_eq_Nil_conv)
  then show ?thesis
    unfolding match_here_def Let_def filename_token_length by auto
qed

lemma drop_token_append:
  "prefix filename_token s \<Longrightarrow> drop 10 (s @ t) = drop 10 s @ t"
  using prefix_length_le [of filename_token s] by (simp add: filename_token_length)

lemma match_here_append:
  assumes "match_here s = Some n"
  shows "match_here (s @ t) = Some n"
proof -
  let ?nq = "\<lambda>c. c \<noteq> dquote"
  from assms have pre: "prefix filename_token s" and n: "n = takeWhile ?nq (drop 10 s)" "n \<noteq> []"
    and q: "dquote \<in> set (drop 10 s)"
    using assms unfolding match_here_Some_iff by blast+
  from pre have "prefix filename_token (s @ t)" by (rule prefix_prefix)
  moreover have "takeWhile ?nq (drop 10 s @ t) = takeWhile ?nq (drop 10 s)"
    using q by (rule takeWhile_append1) simp
  moreover have "dquote \<in> set (drop 10 s @ t)" using q by simp
  ultimately show ?thesis
    using n by (simp only: match_here_Some_iff drop_token_append [OF pre]) simp
qed

lemma match_here_quote:
  assumes "match_here s = Some n"
  shows "dquote \<in> set (drop 11 s)"
proof -
  let ?nq = "\<lambda>c. c \<noteq> dquote"
  from assms have n: "takeWhile ?nq (drop 10 s) \<noteq> []" and q: "dquote \<in> set (drop 10 s)"
    unfolding match_here_Some_iff by blast+
  from q obtain y ys where r: "drop 10 s = y # ys" by (cases "drop 10 s") auto
  with n have "y \<noteq> dquote" by (simp split: if_splits)
  with q r have "dquote \<in> set ys" by simp
  moreover have "drop 11 s = drop 1 (drop 10 s)" by simp
  then have "drop 11 s = ys" by (simp only: r) simp
  ultimately show ?thesis by simp
qed

lemma filename_match_quote:
  "filename_match s = Some n \<Longrightarrow> dquote \<in> set (drop 11 s)"
proof (induction s)
  case Nil
  then show ?case by simp
next
  case (Cons c cs)
  show ?case
  proof (cases "match_here (c # cs)")
    case (Some m)
    then show ?thesis by (rule match_here_quote)
  next
    case None
    with Cons.prems have "filename_match cs = Some n" by simp
    then have "dquote \<in> set (drop 11 cs)" by (rule Cons.IH)
    moreover have "set (drop 11 cs) \<subseteq> set (drop 10 cs)"
      by (rule set_drop_subset_set_drop) simp
    moreover have "drop 11 (c # cs) = drop 10 cs" by (simp add: drop_Cons')
    ultimately show ?thesis by auto
  qed
qed

lemma match_here_None_append:
  assumes "match_here s = None" "dquote \<in> set (drop 10 s)"
  shows "match_here (s @ t) = None"
proof (rule ccontr)
  let ?nq = "\<lambda>c. c \<noteq> dquote"
  assume "match_here (s @ t) \<noteq> None"
  then obtain n where "match_here (s @ t) = Some n" by blast
  then have pre: "prefix filename_token (s @ t)"
    and n: "n = takeWhile ?nq (drop 10 (s @ t))" "n \<noteq> []"
    unfolding match_here_Some_iff by blast+
  from assms(2) have len: "10 \<le> length s" by (cases "10 \<le> length s") simp_all
  with pre have pre': "prefix filename_token s"
    using prefix_append_shorter [of filename_token s t] by (simp add: filename_token_length)
  have "takeWhile ?nq (drop 10 s @ t) = takeWhile ?nq (drop 10 s)"
    using assms(2) by (rule takeWhile_append1) simp
  with n have "takeWhile ?nq (drop 10 s) \<noteq> []"
    by (simp only: drop_token_append [OF pre'] simp_thms)
  with pre' assms(2) have "match_here s = Some (takeWhile ?nq (drop 10 s))"
    by (simp only: match_here_Some_iff) simp
  with assms(1) show False by simp
qed

lemma filename_match_append:
  "filename_match s = Some n \<Longrightarrow> filename_match (s @ t) = Some n"
proof (induction s)
  case Nil
  then show ?case by simp
next
  case (Cons c cs)
  show ?case
  proof (cases "match_here (c # cs)")
    case (Some m)
    with Cons.prems have "m = n" by simp
    with Some have "match_here ((c # cs) @ t) = Some n" by (simp only: match_here_append)
    then show ?thesis by simp
  next
    case None
    with Cons.prems have fm: "filename_match cs = Some n" by simp
    from filename_match_quote [OF fm] have "dquote \<in> set (drop 11 cs)" .
    moreover have "set (drop 11 cs) \<subseteq> set (drop 9 cs)"
      by (rule set_drop_subset_set_drop) simp
    moreover have "drop 10 (c # cs) = drop 9 cs" by (simp add: drop_Cons')
    ultimately have "dquote \<in> set (drop 10 (c # cs))" by auto
    with None have "match_here ((c # cs) @ t) = None" by (rule match_here_None_append)
    with Cons.IH [OF fm] show ?thesis by simp
  qed
qed


lemma terminal_absent_if_plain_absent:
  assumes "lastIndexOf buffer (Buffer_from (''--'' @ boundary)) = None"
  shows "lastIndexOf buffer (Buffer_from (''--'' @ boundary @ ''--'')) = None"
proof -
  let ?bb = "Buffer_from (''--'' @ boundary)"
  let ?bbe = "Buffer_from (''--'' @ boundary @ ''--'')"
  have pre: "prefix ?bb ?bbe"
    using Buffer_from_append [of "''--'' @ boundary" "''--''"] by simp
  from assms have "\<forall>j \<le> length buffer. \<not> prefix ?bb (drop j buffer)"
    by (simp only: lastIndexOf_None_iff)
  then have "\<forall>j \<le> length buffer. \<not> prefix ?bbe (drop j buffer)"
    using pre prefix_order.trans by blast
  then show ?thesis by (simp only: lastIndexOf_None_iff)
qed

subsection \<open>The fallback search for the terminal boundary\<close>

text \<open>
  Claim C10: the delimiter \<open>'--' + boundary\<close> is a prefix of the terminal boundary
  \<open>'--' + boundary + '--'\<close>, so for every buffer the delimiter is absent only if the
  terminal boundary is absent too, and the end offset that lines 145 to 148 compute is
  always the last occurrence of the delimiter: the fallback never yields an offset.
\<close>

theorem fileEndIndex_fallback_redundant:
  "fileEndIndex buffer boundary = lastIndexOf buffer (Buffer_from (''--'' @ boundary))
   \<and> (lastIndexOf buffer (Buffer_from (''--'' @ boundary)) = None
        \<longrightarrow> lastIndexOf buffer (Buffer_from (''--'' @ boundary @ ''--'')) = None)"
proof (cases "lastIndexOf buffer (Buffer_from (''--'' @ boundary))")
  case None
  with terminal_absent_if_plain_absent [OF None] show ?thesis
    by (simp add: fileEndIndex_def)
next
  case (Some i)
  then show ?thesis by (simp add: fileEndIndex_def)
qed

text \<open>A buffer without the delimiter: neither search finds an offset.\<close>

theorem fileEndIndex_fallback_redundant_witness:
  "lastIndexOf ''abc'' (Buffer_from (''--'' @ ''X'')) = None
   \<and> lastIndexOf ''abc'' (Buffer_from (''--'' @ ''X'' @ ''--'')) = None
   \<and> fileEndIndex ''abc'' ''X'' = None"
proof -
  have "lastIndexOf ''abc'' (Buffer_from (''--'' @ ''X'')) = None" by code_simp
  with fileEndIndex_fallback_redundant [of "''abc''" "''X''"] show ?thesis by simp
qed

subsection \<open>When the decoder rejects a request\<close>



subsection \<open>Where the file name is taken from\<close>

text \<open>
  Claim C8, as stated, confines the search for \<open>filename="..."\<close> to the header block.
  The source matches the regular expression against the whole buffer (line 131): in the
  body below the header block (the 45 bytes before the first CR LF CR LF) has no such
  token, the payload is \<open>filename="evil.sh"\<close>, and the decoder returns the name
  \<open>evil.sh\<close>.
\<close>

theorem filename_from_payload_counterexample:
  "indexOf payload_name_body CRLFCRLF = Some 45
   \<and> filename_match (take 45 payload_name_body) = None
   \<and> extract_file ''X'' payload_name_body
       = Inr (''evil.sh'', ''filename='' @ [dquote] @ ''evil.sh'' @ [dquote])"
  by code_simp

text \<open>
  Claim C8, amended: the name the decoder returns is the first match of
  \<open>filename="..."\<close> in the whole body, header block and payload alike. A match that lies
  in the header block (the bytes before the first CR LF CR LF) is that first match, so
  it becomes the name; and when the token occurs nowhere in the body the name is the
  empty string.
\<close>

theorem filename_first_match:
  assumes "extract_file boundary buffer = Inr (name, fileData)"
  shows "name = (case filename_match buffer of Some n \<Rightarrow> n | None \<Rightarrow> [])
         \<and> (\<forall>h n. indexOf buffer CRLFCRLF = Some h \<and> filename_match (take h buffer) = Some n
                \<longrightarrow> name = n)
         \<and> (filename_match buffer = None \<longrightarrow> name = [])"
proof -
  from assms have name: "name = (case filename_match buffer of Some n \<Rightarrow> n | None \<Rightarrow> [])"
    by (auto simp: extract_file_def Let_def split: option.splits if_splits)
  have "name = n" if "filename_match (take h buffer) = Some n" for h n
  proof -
    from that have "filename_match (take h buffer @ drop h buffer) = Some n"
      by (rule filename_match_append)
    with name show ?thesis by simp
  qed
  then have "\<forall>h n. indexOf buffer CRLFCRLF = Some h \<and> filename_match (take h buffer) = Some n
                \<longrightarrow> name = n" by blast
  moreover from name have "filename_match buffer = None \<longrightarrow> name = []" by simp
  ultimately show ?thesis using name by blast
qed

lemma header_name_extract: "extract_file ''X'' header_name_body
     = Inr (''a.txt'', ''filename='' @ [dquote] @ ''b.txt'' @ [dquote])" by code_simp

lemma header_name_end: "indexOf header_name_body CRLFCRLF = Some 53" by code_simp
lemma header_name_match: "filename_match (take 53 header_name_body) = Some ''a.txt''" by code_simp


text \<open>A body with one token in the header block and another in the payload.\<close>

theorem filename_first_match_witness:
  "extract_file ''X'' header_name_body
     = Inr (''a.txt'', ''filename='' @ [dquote] @ ''b.txt'' @ [dquote])
   \<and> indexOf header_name_body CRLFCRLF = Some 53
   \<and> filename_match (take 53 header_name_body) = Some ''a.txt''
   \<and> filename_match header_name_body = Some ''a.txt''"
  using filename_first_match [OF header_name_extract] header_name_extract header_name_end
    header_name_match
  by (cases "filename_match header_name_body") simp_all

subsection \<open>Decoding a single framed part\<close>












section \<open>Properties of the upload and delete routes\<close>

subsection \<open>Steps of the upload route\<close>

lemma parseMultipart_cases:
  obtains (failed) err where "parseMultipart e req st = (Inl err, st)"
  | (written) filename fileData where
      "parseMultipart e req st
       = (Inr \<lparr>originalname = filename,
                up_path = path_join e ''uploads'' (uid e @ ''-'' @ filename),
                up_size = length fileData\<rparr>,
          st\<lparr>blobs := (blobs st)(path_join e ''uploads'' (uid e @ ''-'' @ filename) \<mapsto> fileData)\<rparr>)"
proof (cases "boundary_of (content_type req)")
  case (Inl err)
  then have "parseMultipart e req st = (Inl err, st)" by (simp add: parseMultipart_def)
  then show ?thesis by (rule failed)
next
  case b: (Inr boundary)
  show ?thesis
  proof (cases "extract_file boundary (body_bytes req)")
    case (Inl err)
    with b have "parseMultipart e req st = (Inl err, st)" by (simp add: parseMultipart_def)
    then show ?thesis by (rule failed)
  next
    case (Inr res)
    obtain filename fileData where res: "res = (filename, fileData)" by (cases res)
    show ?thesis
    proof (cases "write_ok e")
      case True
      with b Inr res show ?thesis
        by (intro written [of filename fileData]) (simp add: parseMultipart_def Let_def)
    next
      case False
      with b Inr res have "parseMultipart e req st = (Inl (WriteError (write_error e)), st)"
        by (simp add: parseMultipart_def Let_def)
      then show ?thesis by (rule failed)
    qed
  qed
qed




lemma loadData_blobs: "loadData (st\<lparr>blobs := b\<rparr>) = loadData st"
  by (simp add: loadData_def)

lemma getTotalStorageUsed_blobs: "getTotalStorageUsed (st\<lparr>blobs := b\<rparr>) = getTotalStorageUsed st"
  by (simp add: getTotalStorageUsed_def loadData_blobs)




lemma getTotalStorageUsed_empty: "getTotalStorageUsed empty_store = Fin 0"
  by (simp add: getTotalStorageUsed_def loadData_def empty_store_def)



lemma upload_accepted:
  assumes "fst (parseMultipart e req st) = Inr file"
    and "\<not> num_gt (num_add (getTotalStorageUsed st) (Fin (rat_of_nat (up_size file)))) (Fin totalBytes)"
  shows "upload e req st
         = (if save_ok e
            then (Json 200 (UploadedBody ''File uploaded successfully'' (newFile e file)),
                  (snd (parseMultipart e req st))
                    \<lparr>data_file := Some ((loadData st)\<lparr>files := files (loadData st) @ [newFile e file]\<rparr>),
                     saves := Suc (saves st)\<rparr>)
            else (Json 500 (ErrorBody ''Failed to save file info''),
                  (snd (parseMultipart e req st))\<lparr>saves := Suc (saves st)\<rparr>))"
proof (cases e req st rule: parseMultipart_cases)
  case (failed err)
  with assms(1) show ?thesis by simp
next
  case (written filename fileData)
  let ?p = "path_join e ''uploads'' (uid e @ ''-'' @ filename)"
  let ?st1 = "st\<lparr>blobs := (blobs st)(?p \<mapsto> fileData)\<rparr>"
  from written assms(1)
  have fl: "file = \<lparr>originalname = filename, up_path = ?p, up_size = length fileData\<rparr>"
    by simp
  have p: "parseMultipart e req st = (Inr file, ?st1)" by (simp only: written fl)
  have used: "getTotalStorageUsed ?st1 = getTotalStorageUsed st" by (rule getTotalStorageUsed_blobs)
  have ld: "loadData ?st1 = loadData st" by (rule loadData_blobs)
  have sv: "saves ?st1 = saves st" by simp
  show ?thesis
  proof (cases "save_ok e")
    case True
    then show ?thesis
      unfolding upload_def p prod.case sum.case Let_def used ld saveData_def snd_conv
      using assms(2) by (simp only: if_False if_True prod.case sv bool.case)
  next
    case False
    then show ?thesis
      unfolding upload_def p prod.case sum.case Let_def used ld saveData_def snd_conv
      using assms(2) by (simp only: if_False if_True prod.case sv bool.case)
  qed
qed



subsection \<open>Two uploads that fill the store\<close>








subsection \<open>Rejection of an upload over the quota\<close>



subsection \<open>The quota over a sequence of uploads\<close>






subsection \<open>The type of a file without extension\<close>

lemma readme_parse:
  "fst (parseMultipart demo_env readme_request empty_store)
   = Inr \<lparr>originalname = ''README'', up_path = ''uploads/k3x9-README'', up_size = 5\<rparr>"
  by code_simp

lemma eval_five_bytes: "formatFileSize 5 = ''5 Bytes''"
proof -
  have f: "floor_log 1024 5 = 0" by (simp add: floor_log.simps)
  then have h: "hundredths 5 = 500" by (simp add: hundredths_def)
  have "(0::nat) < 5" by simp
  from formatFileSize_pos [OF this] show ?thesis
    by (simp only: h f Number_toString_hundredths)
      (simp add: digits.simps digit_chars sizes_label_cases)
qed

text \<open>
  Claim C9 says that the type of a new record is \<^verbatim>\<open>unknown\<close> whenever the file name has
  no extension. Line 319 takes the last piece of the name split at dots, which for a
  name without a dot is the whole name: the upload of a file named \<^verbatim>\<open>README\<close> yields a
  record of type \<^verbatim>\<open>README\<close>. The other fields are as the claim says.
\<close>

theorem extensionless_type_is_name:
  "file_type ''README'' = ''README''
   \<and> fst (upload demo_env readme_request empty_store)
       = Json 200 (UploadedBody ''File uploaded successfully''
           \<lparr>f_id = 1700000000000, f_name = ''README'', f_type = ''README'', f_size = ''5 Bytes'',
            f_date = ''2023-11-14'', f_path = ''uploads/k3x9-README''\<rparr>)"
proof -
  let ?fl = "\<lparr>originalname = ''README'', up_path = ''uploads/k3x9-README'', up_size = 5\<rparr>"
  have t: "file_type ''README'' = ''README''" by code_simp
  have d: "hd (split_str ''T'' (iso_now demo_env)) = ''2023-11-14''" by code_simp
  have n: "now demo_env = 1700000000000" by (simp add: demo_env_def)
  have nf: "newFile demo_env ?fl
            = \<lparr>f_id = 1700000000000, f_name = ''README'', f_type = ''README'', f_size = ''5 Bytes'',
               f_date = ''2023-11-14'', f_path = ''uploads/k3x9-README''\<rparr>"
    by (simp add: newFile_def t d n eval_five_bytes)
  note p1 = readme_parse
  have ok: "\<not> num_gt (num_add (getTotalStorageUsed empty_store) (Fin (rat_of_nat (up_size ?fl))))
                 (Fin totalBytes)"
    by (simp add: getTotalStorageUsed_empty totalBytes_def)
  have "save_ok demo_env" by (simp add: demo_env_def)
  with upload_accepted [OF p1 ok] nf t show ?thesis by simp
qed

subsection \<open>Deletion when the metadata file cannot be written\<close>







end
